theory Spec2Isabelle
  imports Main
begin

section \<open>The query builder of \<^verbatim>\<open>frontend/src/api-utils/query-utils.ts\<close>\<close>

text \<open>
  The module builds request strings for a GraphQL API by string templates. Its functions
  are \<^verbatim>\<open>query\<close>, \<^verbatim>\<open>entry\<close>, \<^verbatim>\<open>collection\<close> and the private helpers \<^verbatim>\<open>entryName\<close>,
  \<^verbatim>\<open>collectionName\<close> and \<^verbatim>\<open>data\<close>. They are pure; the only operation of theirs that can
  throw is \<^verbatim>\<open>JSON.stringify\<close>, so \<^verbatim>\<open>collectionName\<close> and \<^verbatim>\<open>collection\<close> return a sum
  (\<open>Inl\<close> the exception thrown) and the others a string.

  A string is a list of code units. The model's characters are the 256 values of
  \<^typ>\<open>char\<close>; code units above \<open>0xFF\<close> are outside the model.
\<close>

subsection \<open>Values of the host language\<close>

abbreviation dq :: char where "dq \<equiv> CHR 0x22"

abbreviation backslash :: char where "backslash \<equiv> CHR 0x5C"

text \<open>
  The type \<^verbatim>\<open>number\<close>. A finite number is given by the decimal digits that
  \<^verbatim>\<open>Number::toString\<close> prints for it: \<open>Finite neg s n\<close> is the number of magnitude
  \<open>s \<times> 10^(n - k)\<close>, where \<open>k\<close> is the number of decimal digits of \<open>s\<close>, negative when
  \<open>neg\<close> holds. For a number that is not zero \<open>s\<close>, \<open>k\<close> and \<open>n\<close> are the ones the
  language chooses (the \<open>k\<close> digits of \<open>s\<close> are the fewest that read back as the number, so
  \<open>s\<close> is not divisible by 10); \<open>s = 0\<close> is zero, of either sign. So \<open>1.5\<close> is
  \<open>Finite False 15 1\<close>, \<open>1e21\<close> is \<open>Finite False 1 22\<close> and \<open>2^69\<close> is
  \<open>Finite False 5902958103587057 21\<close>.
\<close>

datatype number = Finite bool nat int | NaN | PosInfinity | NegInfinity

text \<open>
  A value that can be handed to \<^verbatim>\<open>JSON.stringify\<close>. An object is the list of its own
  enumerable properties whose value is not \<^verbatim>\<open>undefined\<close>, in enumeration order. Objects
  are references, so an object can be reached again from inside itself; the value is
  given by its depth-first unfolding, in which \<open>VCircular\<close> is a reference to an object or
  array that encloses it. The value \<^verbatim>\<open>undefined\<close> of an omitted argument is \<open>None\<close> of
  an option.
\<close>

datatype jsvalue =
    VNull
  | VBool bool
  | VNumber number
  | VString string
  | VArray "jsvalue list"
  | VObject "(string \<times> jsvalue) list"
  | VCircular

datatype error = TypeError

text \<open>\<^verbatim>\<open>ToBoolean\<close>: the test of \<^verbatim>\<open>x ? a : b\<close>, \<^verbatim>\<open>if (x)\<close> and \<^verbatim>\<open>x || y\<close>.\<close>

fun ToBoolean :: "jsvalue \<Rightarrow> bool" where
  "ToBoolean VNull = False"
| "ToBoolean (VBool b) = b"
| "ToBoolean (VNumber (Finite neg s n)) = (s \<noteq> 0)"
| "ToBoolean (VNumber NaN) = False"
| "ToBoolean (VNumber PosInfinity) = True"
| "ToBoolean (VNumber NegInfinity) = True"
| "ToBoolean (VString s) = (s \<noteq> [])"
| "ToBoolean (VArray xs) = True"
| "ToBoolean (VObject ps) = True"
| "ToBoolean VCircular = True"

definition truthy :: "jsvalue option \<Rightarrow> bool" where
  "truthy x = (case x of None \<Rightarrow> False | Some v \<Rightarrow> ToBoolean v)"

text \<open>
  \<^verbatim>\<open>Number::toString\<close>, radix 10. Zero is \<^verbatim>\<open>0\<close> and a negative number is \<^verbatim>\<open>-\<close> and its
  magnitude. With \<open>k\<close> digits and the decimal point behind the first \<open>n\<close> of them: the
  digits and \<open>n - k\<close> zeros when \<open>k \<le> n \<le> 21\<close>; the digits with a point inside when
  \<open>0 < n \<le> 21\<close>; \<^verbatim>\<open>0.\<close>, \<open>-n\<close> zeros and the digits when \<open>-6 < n \<le> 0\<close>; otherwise the
  first digit, a point and the other digits if there are any, \<^verbatim>\<open>e\<close>, the sign of \<open>n - 1\<close>
  and its magnitude.
\<close>

fun digits :: "nat \<Rightarrow> string" where
  "digits n =
     (if n < 10 then [''0123456789'' ! n]
      else digits (n div 10) @ [''0123456789'' ! (n mod 10)])"

declare digits.simps [simp del]

definition exponent :: "int \<Rightarrow> string" where
  "exponent e = (if e < 0 then ''-'' else ''+'') @ digits (nat (abs e))"

definition decimal :: "nat \<Rightarrow> int \<Rightarrow> string" where
  "decimal s n =
     (let ds = digits s; k = int (length ds) in
      if k \<le> n \<and> n \<le> 21 then ds @ replicate (nat (n - k)) (CHR ''0'')
      else if 0 < n \<and> n \<le> 21 then take (nat n) ds @ ''.'' @ drop (nat n) ds
      else if - 6 < n \<and> n \<le> 0 then ''0.'' @ replicate (nat (- n)) (CHR ''0'') @ ds
      else if k = 1 then ds @ ''e'' @ exponent (n - 1)
      else take 1 ds @ ''.'' @ drop 1 ds @ ''e'' @ exponent (n - 1))"

fun Number_toString :: "number \<Rightarrow> string" where
  "Number_toString (Finite neg s n) =
     (if s = 0 then ''0'' else (if neg then ''-'' else []) @ decimal s n)"
| "Number_toString NaN = ''NaN''"
| "Number_toString PosInfinity = ''Infinity''"
| "Number_toString NegInfinity = ''-Infinity''"

text \<open>
  The integer \<open>i\<close> as a number, for an integer that a number holds exactly and prints with
  all its digits (magnitude below \<open>2^53\<close>): the digits without the zeros at their end, and
  the point behind all of them.
\<close>

fun strip_zeros :: "nat \<Rightarrow> nat" where
  "strip_zeros s = (if s \<noteq> 0 \<and> s mod 10 = 0 then strip_zeros (s div 10) else s)"

declare strip_zeros.simps [simp del]

definition Integer :: "int \<Rightarrow> number" where
  "Integer i =
     Finite (i < 0) (strip_zeros (nat (abs i))) (int (length (digits (nat (abs i)))))"

text \<open>A template's \<^verbatim>\<open>${x}\<close> for a string that may be \<^verbatim>\<open>undefined\<close>.\<close>

definition interpolate :: "string option \<Rightarrow> string" where
  "interpolate x = (case x of None \<Rightarrow> ''undefined'' | Some s \<Rightarrow> s)"

text \<open>\<^verbatim>\<open>Array.prototype.join\<close> on an array of strings.\<close>

fun join :: "string \<Rightarrow> string list \<Rightarrow> string" where
  "join sep [] = []"
| "join sep [x] = x"
| "join sep (x # y # ys) = x @ sep @ join sep (y # ys)"

subsection \<open>\<^verbatim>\<open>JSON.stringify\<close>\<close>

text \<open>
  \<^verbatim>\<open>QuoteJSONString\<close>: the two-character escapes, \<^verbatim>\<open>\u00XX\<close> with lower-case digits for the
  other control characters, every other code unit as it is.
\<close>

definition hex_digit :: "nat \<Rightarrow> char" where
  "hex_digit n = ''0123456789abcdef'' ! n"

definition escape_char :: "char \<Rightarrow> string" where
  "escape_char c =
     (if c = CHR 0x08 then [backslash, CHR ''b'']
      else if c = CHR 0x09 then [backslash, CHR ''t'']
      else if c = CHR 0x0A then [backslash, CHR ''n'']
      else if c = CHR 0x0C then [backslash, CHR ''f'']
      else if c = CHR 0x0D then [backslash, CHR ''r'']
      else if c = dq then [backslash, dq]
      else if c = backslash then [backslash, backslash]
      else if (of_char c :: nat) < 32 then
        [backslash, CHR ''u'', CHR ''0'', CHR ''0'',
         hex_digit (of_char c div 16), hex_digit (of_char c mod 16)]
      else [c])"

definition escape :: "string \<Rightarrow> string" where
  "escape s = concat (map escape_char s)"

definition QuoteJSONString :: "string \<Rightarrow> string" where
  "QuoteJSONString s = [dq] @ escape s @ [dq]"

text \<open>The results of a list of computations, or the first exception among them.\<close>

fun sequence :: "('e + 'a) list \<Rightarrow> 'e + 'a list" where
  "sequence [] = Inr []"
| "sequence (r # rs) =
     (case r of
        Inl e \<Rightarrow> Inl e
      | Inr a \<Rightarrow> (case sequence rs of Inl e \<Rightarrow> Inl e | Inr as \<Rightarrow> Inr (a # as)))"

text \<open>
  \<^verbatim>\<open>SerializeJSONProperty\<close> with no replacer and no indentation: no white space is put
  between the tokens. A number that is not finite is \<^verbatim>\<open>null\<close>. A reference to an object
  that is being serialised throws a \<^verbatim>\<open>TypeError\<close>.
\<close>

fun SerializeJSONProperty :: "jsvalue \<Rightarrow> error + string" where
  "SerializeJSONProperty VNull = Inr ''null''"
| "SerializeJSONProperty (VBool b) = Inr (if b then ''true'' else ''false'')"
| "SerializeJSONProperty (VNumber n) =
     Inr (case n of Finite neg s e \<Rightarrow> Number_toString n | _ \<Rightarrow> ''null'')"
| "SerializeJSONProperty (VString s) = Inr (QuoteJSONString s)"
| "SerializeJSONProperty (VArray xs) =
     (case sequence (map SerializeJSONProperty xs) of
        Inl e \<Rightarrow> Inl e
      | Inr ts \<Rightarrow> Inr (''['' @ join '','' ts @ '']''))"
| "SerializeJSONProperty (VObject ps) =
     (case sequence
             (map (\<lambda>(k, v).
                     case SerializeJSONProperty v of
                       Inl e \<Rightarrow> Inl e
                     | Inr t \<Rightarrow> Inr (QuoteJSONString k @ '':'' @ t)) ps) of
        Inl e \<Rightarrow> Inl e
      | Inr ms \<Rightarrow> Inr (''{'' @ join '','' ms @ ''}''))"
| "SerializeJSONProperty VCircular = Inl TypeError"

text \<open>\<^verbatim>\<open>JSON.stringify(x)\<close>: \<^verbatim>\<open>undefined\<close> for \<^verbatim>\<open>undefined\<close>.\<close>

definition JSON_stringify :: "jsvalue option \<Rightarrow> error + string option" where
  "JSON_stringify x =
     (case x of
        None \<Rightarrow> Inr None
      | Some v \<Rightarrow> (case SerializeJSONProperty v of Inl e \<Rightarrow> Inl e | Inr t \<Rightarrow> Inr (Some t)))"

subsection \<open>The replacement \<^verbatim>\<open>.replace(/"([^"]+)":/g, "$1:")\<close>\<close>

text \<open>
  A match starts at a double quote, takes the code units up to the next double quote (at
  least one), that quote and a colon after it; nothing else can match, since the group
  cannot hold a quote. A match is replaced by its group and a colon and the search goes
  on behind it; where no match starts, the code unit is copied and the search goes on
  at the next one.
\<close>

function replace_quoted_keys :: "string \<Rightarrow> string" where
  "replace_quoted_keys [] = []"
| "replace_quoted_keys (c # cs) =
     (let group = takeWhile (\<lambda>x. x \<noteq> dq) cs; rest = dropWhile (\<lambda>x. x \<noteq> dq) cs in
      if c = dq \<and> group \<noteq> [] \<and> take 2 rest = [dq, CHR '':'']
      then group @ '':'' @ replace_quoted_keys (drop 2 rest)
      else c # replace_quoted_keys cs)"
  by pat_completeness auto
termination
proof (relation "measure length")
  show "wf (measure length)" by simp
next
  fix c :: char and cs group rest :: string
  assume "rest = dropWhile (\<lambda>x. x \<noteq> dq) cs"
  then have "length rest \<le> length cs"
    by (simp add: length_dropWhile_le)
  then show "(drop 2 rest, c # cs) \<in> measure length" by simp
next
  fix c :: char and cs :: string
  show "(cs, c # cs) \<in> measure length" by simp
qed

subsection \<open>The arguments\<close>

text \<open>
  Modelled from the spec: the type \<^verbatim>\<open>Filter\<close> of \<^verbatim>\<open>models/filter-models\<close>, "a filter
  expression (recursively structured: comparison operators or nested logical
  combinations)" on whose contents "no validation is performed": any value. The argument
  \<^verbatim>\<open>filter?: { [fieldOrLogicalOperator: string]: Filter }\<close> is an object of such values.
\<close>

type_synonym Filter = jsvalue

text \<open>\<^verbatim>\<open>sort?: string | string[]\<close>.\<close>

datatype SortSpec = SortString string | SortArray "string list"

text \<open>
  Modelled from the spec: the type \<^verbatim>\<open>Pagination\<close> of \<^verbatim>\<open>models/pagination-models\<close>, "a
  small record of numeric options (e.g., page index, page size)": an object of numbers.
\<close>

type_synonym Pagination = "(string \<times> number) list"

text \<open>
  Modelled from the spec: the type \<^verbatim>\<open>PaginationResponse\<close> of
  \<^verbatim>\<open>models/pagination-models\<close>, "a mapping from pagination-metadata field name to a
  boolean": an object of booleans (the source reads it as
  \<^verbatim>\<open>{ [key: string]: boolean }\<close>), its properties in the order of \<^verbatim>\<open>Object.keys\<close>.
\<close>

type_synonym PaginationResponse = "(string \<times> bool) list"

definition filter_value :: "(string \<times> Filter) list option \<Rightarrow> jsvalue option" where
  "filter_value f = map_option VObject f"

definition pagination_value :: "Pagination option \<Rightarrow> jsvalue option" where
  "pagination_value p = map_option (\<lambda>ps. VObject (map (\<lambda>(k, n). (k, VNumber n)) ps)) p"

definition sort_value :: "SortSpec option \<Rightarrow> jsvalue option" where
  "sort_value s =
     map_option (\<lambda>x. case x of SortString t \<Rightarrow> VString t
                           | SortArray ts \<Rightarrow> VArray (map VString ts)) s"

subsection \<open>The functions of the module\<close>

definition query :: "string \<Rightarrow> string" where
  "query queryContent = ''query { '' @ queryContent @ '' }''"

definition data :: "string list \<Rightarrow> string" where
  "data fields = ''data { id attributes { '' @ join '' '' fields @ '' } }''"

text \<open>\<^verbatim>\<open>id?: number\<close> is \<open>ident\<close>; \<open>filter_arg\<close> and \<open>sort_arg\<close> are \<^verbatim>\<open>filter\<close> and \<^verbatim>\<open>sort\<close>.\<close>

definition entryName :: "string \<Rightarrow> number option \<Rightarrow> string" where
  "entryName entityName ident =
     entityName @
     (if truthy (map_option VNumber ident)
      then ''(id: '' @ interpolate (map_option Number_toString ident) @ '')''
      else [])"

definition entry :: "string \<Rightarrow> string list \<Rightarrow> number option \<Rightarrow> string" where
  "entry entityName fields ident = entryName entityName ident @ '' { '' @ data fields @ '' }''"

definition collectionName ::
  "string \<Rightarrow> (string \<times> Filter) list option \<Rightarrow> Pagination option \<Rightarrow> SortSpec option
   \<Rightarrow> error + string" where
  "collectionName entityName filter_arg pagination sort_arg =
     (case JSON_stringify (filter_value filter_arg) of
        Inl e \<Rightarrow> Inl e
      | Inr fs \<Rightarrow>
     (case JSON_stringify (pagination_value pagination) of
        Inl e \<Rightarrow> Inl e
      | Inr ps \<Rightarrow>
     (case JSON_stringify (sort_value sort_arg) of
        Inl e \<Rightarrow> Inl e
      | Inr ss \<Rightarrow>
        (let filterString = map_option replace_quoted_keys fs;
             paginationString = map_option replace_quoted_keys ps;
             sortString = map_option replace_quoted_keys ss;
             needsBraces = (truthy (filter_value filter_arg)
                            \<or> truthy (pagination_value pagination)
                            \<or> truthy (sort_value sort_arg))
         in Inr (entityName
                 @ (if needsBraces then ''('' else [])
                 @ (if truthy (filter_value filter_arg)
                    then ''filters: '' @ interpolate filterString @ '', '' else [])
                 @ (if truthy (pagination_value pagination)
                    then ''pagination: '' @ interpolate paginationString @ '', '' else [])
                 @ (if truthy (sort_value sort_arg)
                    then ''sort: '' @ interpolate sortString @ '', '' else [])
                 @ (if needsBraces then '')'' else []))))))"

definition collection ::
  "string \<Rightarrow> string list \<Rightarrow> (string \<times> Filter) list option \<Rightarrow> SortSpec option
   \<Rightarrow> Pagination option \<Rightarrow> PaginationResponse option \<Rightarrow> error + string" where
  "collection entityName fields filter_arg sort_arg pagination paginationResponse =
     (let paginationResponseString =
            (case paginationResponse of
               None \<Rightarrow> None
             | Some flags \<Rightarrow>
                 Some (join '' '' (filter (\<lambda>key. map_of flags key = Some True)
                                           (map fst flags))))
      in case collectionName entityName filter_arg pagination sort_arg of
           Inl e \<Rightarrow> Inl e
         | Inr name \<Rightarrow>
             Inr (name @ '' { '' @ data fields @ '' ''
                  @ (case paginationResponse of
                       Some flags \<Rightarrow>
                         ''meta { pagination { '' @ interpolate paginationResponseString
                         @ '' } }''
                     | None \<Rightarrow> [])
                  @ '' }''))"

subsection \<open>Notions of the specification\<close>

text \<open>
  The literal the specification asks for: "a JSON-like literal with outer property-name
  quoting stripped; string values retain their quotes; only JSON object-key quoting is
  removed". It is the text of \<^verbatim>\<open>JSON.stringify\<close> with every key written as JSON
  writes it but without its two quotes. A value with a circular reference has no literal
  (the empty text stands in its place).
\<close>

fun literal :: "jsvalue \<Rightarrow> string" where
  "literal VNull = ''null''"
| "literal (VBool b) = (if b then ''true'' else ''false'')"
| "literal (VNumber n) = (case n of Finite neg s e \<Rightarrow> Number_toString n | _ \<Rightarrow> ''null'')"
| "literal (VString s) = QuoteJSONString s"
| "literal (VArray xs) = ''['' @ join '','' (map literal xs) @ '']''"
| "literal (VObject ps) =
     ''{'' @ join '','' (map (\<lambda>(k, v). escape k @ '':'' @ literal v) ps) @ ''}''"
| "literal VCircular = []"

text \<open>
  The inputs on which the textual replacement is the literal: no circular reference; no
  string value that holds a double quote with a colon right after it, or starts with a
  colon; no key that is empty, holds a double quote or starts with a colon.
\<close>

fun starts_with_colon :: "string \<Rightarrow> bool" where
  "starts_with_colon [] = False"
| "starts_with_colon (c # cs) = (c = CHR '':'')"

fun has_quote_colon :: "string \<Rightarrow> bool" where
  "has_quote_colon [] = False"
| "has_quote_colon (x # r) = ((x = dq \<and> starts_with_colon r) \<or> has_quote_colon r)"

definition clean_string :: "string \<Rightarrow> bool" where
  "clean_string s = (\<not> has_quote_colon s \<and> \<not> starts_with_colon s)"

definition clean_key :: "string \<Rightarrow> bool" where
  "clean_key k = (k \<noteq> [] \<and> dq \<notin> set k \<and> \<not> starts_with_colon k)"

fun clean :: "jsvalue \<Rightarrow> bool" where
  "clean (VString s) = clean_string s"
| "clean (VArray xs) = list_all clean xs"
| "clean (VObject ps) = list_all (\<lambda>(k, v). clean_key k \<and> clean v) ps"
| "clean VCircular = False"
| "clean _ = True"

definition clean_arg :: "jsvalue option \<Rightarrow> bool" where
  "clean_arg x = (case x of None \<Rightarrow> True | Some v \<Rightarrow> clean v)"

text \<open>A value that reaches an enclosing object again.\<close>

fun circular :: "jsvalue \<Rightarrow> bool" where
  "circular VCircular = True"
| "circular (VArray xs) = list_ex circular xs"
| "circular (VObject ps) = list_ex (\<lambda>(k, v). circular v) ps"
| "circular _ = False"

text \<open>The pieces of a string between the occurrences of a separator.\<close>

fun split_on :: "char \<Rightarrow> string \<Rightarrow> string list" where
  "split_on c [] = [[]]"
| "split_on c (x # xs) =
     (if x = c then [] # split_on c xs
      else (case split_on c xs of [] \<Rightarrow> [[x]] | w # ws \<Rightarrow> (x # w) # ws))"

subsection \<open>Auxiliary notions of the proofs\<close>

text \<open>
  A text \<open>ys\<close> that may follow a serialised value: it does not start with a colon, and
  its first double quote, if any, has no colon after it. Then no match of the pattern
  starts before \<open>ys\<close> and ends in it.
\<close>

definition safe_rest :: "string \<Rightarrow> bool" where
  "safe_rest ys =
     (\<not> starts_with_colon ys \<and> take 2 (dropWhile (\<lambda>x. x \<noteq> dq) ys) \<noteq> [dq, CHR '':''])"

text \<open>The replacement turns \<open>t\<close> into \<open>l\<close> in front of every such text.\<close>

definition rewrites_to :: "string \<Rightarrow> string \<Rightarrow> bool" where
  "rewrites_to t l =
     (\<forall>ys. safe_rest ys \<longrightarrow>
        replace_quoted_keys (t @ ys) = l @ replace_quoted_keys ys \<and> safe_rest (t @ ys))"

section \<open>Properties\<close>

subsection \<open>The replacement on serialised values\<close>

lemma replace_no_quote: "dq \<notin> set xs \<Longrightarrow> replace_quoted_keys (xs @ ys) = xs @ replace_quoted_keys ys"
  by (induction xs) auto

lemma replace_key:
  assumes "dq \<notin> set k" "k \<noteq> []"
  shows "replace_quoted_keys (dq # k @ dq # CHR '':'' # ys) = k @ '':'' @ replace_quoted_keys ys"
proof -
  have "takeWhile (\<lambda>x. x \<noteq> dq) (k @ dq # CHR '':'' # ys) = k"
    using assms(1) by (induction k) auto
  moreover have "dropWhile (\<lambda>x. x \<noteq> dq) (k @ dq # CHR '':'' # ys) = dq # CHR '':'' # ys"
    using assms(1) by (induction k) auto
  ultimately show ?thesis using assms(2) by simp
qed

lemma safe_rest_Nil: "safe_rest []"
  by (simp add: safe_rest_def)

lemma safe_rest_plain:
  assumes "dq \<notin> set t" "t \<noteq> []" "\<not> starts_with_colon t" "safe_rest ys"
  shows "safe_rest (t @ ys)"
proof -
  have "dropWhile (\<lambda>x. x \<noteq> dq) (t @ ys) = dropWhile (\<lambda>x. x \<noteq> dq) ys"
    using assms(1) by (induction t) auto
  moreover have "starts_with_colon (t @ ys) = starts_with_colon t"
    using assms(2) by (cases t) auto
  ultimately show ?thesis using assms(3,4) by (simp add: safe_rest_def)
qed

lemma safe_rest_quote: "\<not> starts_with_colon t \<Longrightarrow> safe_rest (dq # t)"
  by (cases t) (auto simp add: safe_rest_def)

lemma rewrites_to_Nil: "rewrites_to [] []"
  by (simp add: rewrites_to_def)

lemma rewrites_to_plain:
  "dq \<notin> set t \<Longrightarrow> t \<noteq> [] \<Longrightarrow> \<not> starts_with_colon t \<Longrightarrow> rewrites_to t t"
  by (simp add: rewrites_to_def replace_no_quote safe_rest_plain)

lemma rewrites_to_append:
  "rewrites_to t1 l1 \<Longrightarrow> rewrites_to t2 l2 \<Longrightarrow> rewrites_to (t1 @ t2) (l1 @ l2)"
  by (simp add: rewrites_to_def)

lemma rewrites_to_Cons:
  "c \<noteq> dq \<Longrightarrow> c \<noteq> CHR '':'' \<Longrightarrow> rewrites_to t l \<Longrightarrow> rewrites_to (c # t) (c # l)"
  by (simp add: rewrites_to_def safe_rest_def)

lemma rewrites_to_snoc:
  "c \<noteq> dq \<Longrightarrow> c \<noteq> CHR '':'' \<Longrightarrow> rewrites_to t l \<Longrightarrow> rewrites_to (t @ [c]) (l @ [c])"
  using rewrites_to_append [of t l "[c]" "[c]"] rewrites_to_plain [of "[c]"] by simp

lemma hex_digit_plain: "n < 16 \<Longrightarrow> dq \<noteq> hex_digit n"
proof -
  assume "n < 16"
  then have "hex_digit n \<in> set ''0123456789abcdef''"
    unfolding hex_digit_def by (intro nth_mem) simp
  then show ?thesis by auto
qed

lemma escape_char_no_quote: "dq \<notin> set (escape_char c) \<longleftrightarrow> c \<noteq> dq"
proof -
  have "\<And>x::nat. x < 32 \<Longrightarrow> x div 16 < 16" by arith
  then have hi: "(of_char c :: nat) < 32 \<Longrightarrow> dq \<noteq> hex_digit (of_char c div 16)"
    by (intro hex_digit_plain) simp
  have lo: "dq \<noteq> hex_digit (of_char c mod 16)"
    by (intro hex_digit_plain) simp
  show ?thesis
    unfolding escape_char_def using hi lo by (simp split: if_splits)
qed

lemma escape_no_quote: "dq \<notin> set s \<Longrightarrow> dq \<notin> set (escape s)"
  by (induction s) (auto simp add: escape_def escape_char_no_quote)

lemma escape_char_start: "escape_char c \<noteq> [] \<and> (starts_with_colon (escape_char c @ r) \<longleftrightarrow> c = CHR '':'')"
proof -
  have "(of_char c :: nat) < 32 \<Longrightarrow> c \<noteq> CHR '':''" by auto
  then show ?thesis by (simp add: escape_char_def)
qed

lemma escape_start: "starts_with_colon (escape s @ r) = starts_with_colon (s @ r)"
proof (cases s)
  case Nil
  then show ?thesis by (simp add: escape_def)
next
  case (Cons c cs)
  then show ?thesis
    using escape_char_start [of c "concat (map escape_char cs) @ r"] by (simp add: escape_def)
qed

lemma escape_empty: "escape s = [] \<longleftrightarrow> s = []"
  using escape_char_start by (cases s) (auto simp add: escape_def)

lemma escape_Nil: "escape [] = []"
  by (simp add: escape_def)

lemma escape_Cons: "escape (c # s) = escape_char c @ escape s"
  by (simp add: escape_def)

lemma escape_char_quote: "escape_char dq = [backslash, dq]"
  by (simp add: escape_char_def)

lemma dropWhile_skip:
  "dq \<notin> set xs \<Longrightarrow> dropWhile (\<lambda>x. x \<noteq> dq) (xs @ ys) = dropWhile (\<lambda>x. x \<noteq> dq) ys"
  by (induction xs) auto

lemma first_quote_body:
  assumes "\<not> has_quote_colon s" and "\<not> starts_with_colon ys"
  shows "take 2 (dropWhile (\<lambda>x. x \<noteq> dq) (escape s @ dq # ys)) \<noteq> [dq, CHR '':'']"
  using assms(1)
proof (induction s)
  case Nil
  show ?case using assms(2) by (cases ys) (simp_all add: escape_Nil)
next
  case (Cons c s)
  show ?case
  proof (cases "c = dq")
    case True
    then have "\<not> starts_with_colon s" using Cons.prems by simp
    then have "\<not> starts_with_colon (escape s @ dq # ys)"
      by (cases s) (simp_all add: escape_start)
    then show ?thesis
      using True by (cases "escape s @ dq # ys") (simp_all add: escape_Cons escape_char_quote)
  next
    case False
    then have "dq \<notin> set (escape_char c)" by (simp add: escape_char_no_quote)
    then have "dropWhile (\<lambda>x. x \<noteq> dq) (escape (c # s) @ dq # ys)
        = dropWhile (\<lambda>x. x \<noteq> dq) (escape s @ dq # ys)"
      by (simp add: escape_Cons dropWhile_skip)
    then show ?thesis using Cons False by simp
  qed
qed

lemma replace_body:
  assumes "\<not> has_quote_colon s" and "safe_rest ys"
  shows "replace_quoted_keys (escape s @ dq # ys) = escape s @ dq # replace_quoted_keys ys"
  using assms(1)
proof (induction s)
  case Nil
  show ?case using assms(2) by (simp add: escape_Nil safe_rest_def)
next
  case (Cons c s)
  have ys: "\<not> starts_with_colon ys" using assms(2) by (simp add: safe_rest_def)
  show ?case
  proof (cases "c = dq")
    case True
    then have s: "\<not> has_quote_colon s" using Cons.prems by simp
    have "replace_quoted_keys (dq # escape s @ dq # ys) = dq # replace_quoted_keys (escape s @ dq # ys)"
      using first_quote_body [OF s ys] by simp
    then show ?thesis
      using True Cons.IH [OF s] by (simp add: escape_Cons escape_char_quote)
  next
    case False
    then have "dq \<notin> set (escape_char c)" by (simp add: escape_char_no_quote)
    then have "replace_quoted_keys (escape_char c @ escape s @ dq # ys)
        = escape_char c @ replace_quoted_keys (escape s @ dq # ys)"
      by (rule replace_no_quote)
    then show ?thesis using Cons False by (simp add: escape_Cons)
  qed
qed

lemma rewrites_to_string:
  assumes "clean_string s"
  shows "rewrites_to (QuoteJSONString s) (QuoteJSONString s)"
  unfolding rewrites_to_def
proof (intro allI impI conjI)
  have q: "\<not> has_quote_colon s" and start: "\<not> starts_with_colon s"
    using assms by (simp_all add: clean_string_def)
  fix ys assume ys: "safe_rest ys"
  then have colon: "\<not> starts_with_colon ys" by (simp add: safe_rest_def)
  have "replace_quoted_keys (dq # escape s @ dq # ys) = dq # replace_quoted_keys (escape s @ dq # ys)"
    using first_quote_body [OF q colon] by simp
  then show "replace_quoted_keys (QuoteJSONString s @ ys) = QuoteJSONString s @ replace_quoted_keys ys"
    using replace_body [OF q ys] by (simp add: QuoteJSONString_def)
  have "\<not> starts_with_colon (escape s @ dq # ys)"
    using start by (cases s) (simp_all add: escape_start)
  then show "safe_rest (QuoteJSONString s @ ys)"
    using safe_rest_quote [of "escape s @ dq # ys"] by (simp add: QuoteJSONString_def)
qed

lemma rewrites_to_member:
  assumes "clean_key k" "rewrites_to t l"
  shows "rewrites_to (QuoteJSONString k @ '':'' @ t) (escape k @ '':'' @ l)"
  unfolding rewrites_to_def
proof (intro allI impI conjI)
  fix ys assume ys: "safe_rest ys"
  have nq: "dq \<notin> set (escape k)" and ne: "escape k \<noteq> []"
    using assms(1) by (simp_all add: clean_key_def escape_no_quote escape_empty)
  have "replace_quoted_keys (dq # escape k @ dq # CHR '':'' # (t @ ys))
      = escape k @ '':'' @ replace_quoted_keys (t @ ys)"
    using nq ne by (rule replace_key)
  then show "replace_quoted_keys ((QuoteJSONString k @ '':'' @ t) @ ys)
      = (escape k @ '':'' @ l) @ replace_quoted_keys ys"
    using assms(2) ys by (simp add: QuoteJSONString_def rewrites_to_def)
  have "\<not> starts_with_colon (escape k @ dq # CHR '':'' # t @ ys)"
    using assms(1) by (cases k) (auto simp add: escape_start clean_key_def)
  then show "safe_rest ((QuoteJSONString k @ '':'' @ t) @ ys)"
    using safe_rest_quote [of "escape k @ dq # CHR '':'' # t @ ys"] by (simp add: QuoteJSONString_def)
qed

lemma rewrites_to_join:
  "list_all2 rewrites_to ts ls \<Longrightarrow> rewrites_to (join '','' ts) (join '','' ls)"
proof (induction ts ls rule: list_all2_induct)
  case Nil
  then show ?case by (simp add: rewrites_to_Nil)
next
  case (Cons t ts l ls)
  show ?case
  proof (cases ts)
    case Nil
    with Cons show ?thesis by simp
  next
    case (Cons t' ts')
    then obtain l' ls' where ls: "ls = l' # ls'"
      using \<open>list_all2 rewrites_to ts ls\<close> by (cases ls) auto
    have "rewrites_to (CHR '','' # join '','' ts) (CHR '','' # join '','' ls)"
      using Cons.IH by (intro rewrites_to_Cons) simp_all
    then have "rewrites_to (t @ CHR '','' # join '','' ts) (l @ CHR '','' # join '','' ls)"
      using \<open>rewrites_to t l\<close> by (rule rewrites_to_append [rotated])
    then show ?thesis using Cons ls by simp
  qed
qed

lemma digits_plain: "digits n \<noteq> [] \<and> set (digits n) \<subseteq> set ''0123456789''"
proof (induction n rule: digits.induct)
  case (1 n)
  show ?case
  proof (cases "n < 10")
    case True
    then have "''0123456789'' ! n \<in> set ''0123456789''"
      by (intro nth_mem) simp
    with True show ?thesis by (subst (1 2) digits.simps) simp
  next
    case False
    have "''0123456789'' ! (n mod 10) \<in> set ''0123456789''"
      by (intro nth_mem) simp
    with False 1 show ?thesis by (subst (1 2) digits.simps) simp
  qed
qed

lemma starts_with_colon_mem: "starts_with_colon t \<Longrightarrow> CHR '':'' \<in> set t"
  by (cases t) auto

lemma digits_no_mark: "dq \<notin> set (digits m) \<and> CHR '':'' \<notin> set (digits m)"
  using digits_plain [of m] by auto

lemma take_no_mark: "c \<notin> set xs \<Longrightarrow> c \<notin> set (take m xs)"
  by (auto dest: in_set_takeD)

lemma drop_no_mark: "c \<notin> set xs \<Longrightarrow> c \<notin> set (drop m xs)"
  by (auto dest: in_set_dropD)

lemma exponent_no_mark: "dq \<notin> set (exponent e) \<and> CHR '':'' \<notin> set (exponent e)"
  using digits_no_mark [of "nat (abs e)"] by (simp add: exponent_def)

lemma decimal_plain:
  "decimal s n \<noteq> [] \<and> dq \<notin> set (decimal s n) \<and> CHR '':'' \<notin> set (decimal s n)"
proof -
  have ne: "digits s \<noteq> []"
    using digits_plain [of s] by simp
  have "decimal s n \<noteq> []"
    using ne by (simp add: decimal_def Let_def)
  moreover have "dq \<notin> set (decimal s n)"
    using digits_no_mark [of s] exponent_no_mark [of "n - 1"]
    by (simp add: decimal_def Let_def take_no_mark drop_no_mark)
  moreover have "CHR '':'' \<notin> set (decimal s n)"
    using digits_no_mark [of s] exponent_no_mark [of "n - 1"]
    by (simp add: decimal_def Let_def take_no_mark drop_no_mark)
  ultimately show ?thesis by simp
qed

lemma Number_toString_plain:
  "Number_toString n \<noteq> [] \<and> dq \<notin> set (Number_toString n) \<and> CHR '':'' \<notin> set (Number_toString n)"
proof (cases n)
  case (Finite neg s e)
  then show ?thesis using decimal_plain [of s e] by simp
qed simp_all

lemma rewrites_to_number:
  "rewrites_to (case n of Finite neg s e \<Rightarrow> Number_toString n | _ \<Rightarrow> ''null'')
               (case n of Finite neg s e \<Rightarrow> Number_toString n | _ \<Rightarrow> ''null'')"
proof (cases n)
  case (Finite neg s e)
  have "rewrites_to (Number_toString n) (Number_toString n)"
    using Number_toString_plain [of n] starts_with_colon_mem [of "Number_toString n"]
    by (intro rewrites_to_plain) auto
  with Finite show ?thesis by simp
qed (simp_all add: rewrites_to_plain)

lemma replicate_numeral: "replicate (numeral v) x = x # replicate (numeral v - 1) x"
  by (simp add: numeral_eq_Suc)

lemma sequence_map_Inr:
  "(\<And>x. x \<in> set xs \<Longrightarrow> \<exists>t. f x = Inr t \<and> R t (g x))
   \<Longrightarrow> \<exists>ts. sequence (map f xs) = Inr ts \<and> list_all2 R ts (map g xs)"
proof (induction xs)
  case Nil
  then show ?case by simp
next
  case (Cons x xs)
  obtain t where t: "f x = Inr t" "R t (g x)"
    using Cons.prems [of x] by auto
  obtain ts where ts: "sequence (map f xs) = Inr ts" "list_all2 R ts (map g xs)"
    using Cons.IH Cons.prems by auto
  show ?case using t ts by simp
qed

lemma serialize_clean:
  "clean v \<Longrightarrow> \<exists>t. SerializeJSONProperty v = Inr t \<and> rewrites_to t (literal v)"
proof (induction v)
  case VNull
  show ?case by (simp add: rewrites_to_plain)
next
  case (VBool b)
  show ?case by (simp add: rewrites_to_plain)
next
  case (VNumber n)
  show ?case using rewrites_to_number [of n] by simp
next
  case (VString s)
  then show ?case by (simp add: rewrites_to_string)
next
  case (VArray xs)
  have "\<exists>t. SerializeJSONProperty x = Inr t \<and> rewrites_to t (literal x)" if "x \<in> set xs" for x
    using that VArray by (auto simp add: list_all_iff)
  then obtain ts where ts: "sequence (map SerializeJSONProperty xs) = Inr ts"
      "list_all2 rewrites_to ts (map literal xs)"
    using sequence_map_Inr [of xs SerializeJSONProperty rewrites_to literal] by auto
  have "rewrites_to (CHR ''['' # join '','' ts @ '']'') (CHR ''['' # join '','' (map literal xs) @ '']'')"
    using ts(2) by (intro rewrites_to_Cons rewrites_to_snoc rewrites_to_join) simp_all
  then show ?case using ts(1) by simp
next
  case (VObject ps)
  let ?f = "\<lambda>(k, v). case SerializeJSONProperty v of Inl e \<Rightarrow> Inl e
                        | Inr t \<Rightarrow> Inr (QuoteJSONString k @ '':'' @ t)"
  let ?g = "\<lambda>(k, v). escape k @ '':'' @ literal v"
  have "\<exists>m. ?f p = Inr m \<and> rewrites_to m (?g p)" if mem: "p \<in> set ps" for p
  proof -
    obtain k v where p: "p = (k, v)" by (cases p)
    have c: "clean_key k" "clean v"
      using mem VObject.prems p by (auto simp add: list_all_iff)
    obtain t where t: "SerializeJSONProperty v = Inr t" "rewrites_to t (literal v)"
    proof -
      have "(k, v) \<in> set ps" using mem p by simp
      moreover have "v \<in> Basic_BNFs.snds (k, v)" by simp
      ultimately have "\<exists>t. SerializeJSONProperty v = Inr t \<and> rewrites_to t (literal v)"
        using c(2) by (rule VObject.IH)
      then show ?thesis using that by blast
    qed
    show ?thesis using rewrites_to_member [OF c(1) t(2)] p t(1) by simp
  qed
  then obtain ms where ms: "sequence (map ?f ps) = Inr ms" "list_all2 rewrites_to ms (map ?g ps)"
    using sequence_map_Inr [of ps ?f rewrites_to ?g] by auto
  have "rewrites_to (CHR ''{'' # join '','' ms @ ''}'') (CHR ''{'' # join '','' (map ?g ps) @ ''}'')"
    using ms(2) by (intro rewrites_to_Cons rewrites_to_snoc rewrites_to_join) simp_all
  then show ?case using ms(1) by simp
next
  case VCircular
  then show ?case by simp
qed

lemma replace_serialized:
  assumes "clean v"
  shows "\<exists>t. SerializeJSONProperty v = Inr t \<and> replace_quoted_keys t = literal v"
proof -
  obtain t where t: "SerializeJSONProperty v = Inr t" "rewrites_to t (literal v)"
    using serialize_clean [OF assms] by auto
  from t(2) have "replace_quoted_keys (t @ []) = literal v @ replace_quoted_keys []"
    unfolding rewrites_to_def using safe_rest_Nil by blast
  with t(1) show ?thesis by simp
qed


subsection \<open>When the serialisation throws\<close>

lemma isl_case_Inr: "isl (case r of Inl e \<Rightarrow> Inl e | Inr t \<Rightarrow> Inr (g t)) = isl r"
  by (cases r) simp_all

lemma isl_case_bind:
  "isl (case r of Inl e \<Rightarrow> Inl e | Inr t \<Rightarrow> h t) = (isl r \<or> isl (h (projr r)))"
  by (cases r) simp_all

lemma isl_sequence: "isl (sequence rs) = list_ex isl rs"
proof (induction rs)
  case Nil
  show ?case by simp
next
  case (Cons r rs)
  then show ?case by (cases r; cases "sequence rs") simp_all
qed

lemma isl_serialize: "isl (SerializeJSONProperty v) = circular v"
proof (induction v)
  case (VArray xs)
  then have "list_ex (\<lambda>x. isl (SerializeJSONProperty x)) xs = list_ex circular xs"
    by (auto simp add: list_ex_iff)
  then show ?case by (simp add: isl_case_Inr isl_sequence list_ex_iff)
next
  case (VObject ps)
  let ?f = "\<lambda>(k, v). case SerializeJSONProperty v of Inl e \<Rightarrow> Inl e
                        | Inr t \<Rightarrow> Inr (QuoteJSONString k @ '':'' @ t)"
  have "isl (?f p) = (case p of (k, v) \<Rightarrow> circular v)" if "p \<in> set ps" for p
  proof -
    obtain k v where p: "p = (k, v)" by (cases p)
    have "isl (SerializeJSONProperty v) = circular v"
      using VObject [of p v] that p by simp
    then show ?thesis using p by (simp add: isl_case_Inr)
  qed
  then have "list_ex (\<lambda>p. isl (?f p)) ps = list_ex (\<lambda>(k, v). circular v) ps"
    by (auto simp add: list_ex_iff)
  then show ?case by (simp add: isl_case_Inr isl_sequence list_ex_iff)
qed simp_all

lemma isl_stringify:
  "isl (JSON_stringify x) = (case x of None \<Rightarrow> False | Some v \<Rightarrow> circular v)"
  by (cases x) (simp_all add: JSON_stringify_def isl_case_Inr isl_serialize)

lemma stringify_pagination: "\<not> isl (JSON_stringify (pagination_value p))"
  by (cases p) (auto simp add: isl_stringify pagination_value_def list_ex_iff)

lemma stringify_sort: "\<not> isl (JSON_stringify (sort_value s))"
proof (cases s)
  case None
  then show ?thesis by (simp add: isl_stringify sort_value_def)
next
  case (Some x)
  then show ?thesis
    by (cases x) (auto simp add: isl_stringify sort_value_def list_ex_iff)
qed

lemma isl_collectionName:
  "isl (collectionName E f p s) = (case f of None \<Rightarrow> False | Some x \<Rightarrow> circular (VObject x))"
proof -
  have "isl (collectionName E f p s) = isl (JSON_stringify (filter_value f))"
    using stringify_pagination [of p] stringify_sort [of s]
    by (simp add: collectionName_def Let_def isl_case_bind)
  then show ?thesis by (cases f) (simp_all add: isl_stringify filter_value_def)
qed

lemma isl_collection: "isl (collection E F f s p pr) = isl (collectionName E f p s)"
  by (simp add: collection_def isl_case_Inr)

lemma stringify_None: "JSON_stringify x = Inr r \<Longrightarrow> (r = None) = (x = None)"
  by (cases x; cases "SerializeJSONProperty (the x)") (auto simp add: JSON_stringify_def)

subsection \<open>The name part and the output of \<^verbatim>\<open>collection\<close>\<close>

lemma truthy_filter: "truthy (filter_value f) = (f \<noteq> None)"
  by (cases f) (simp_all add: truthy_def filter_value_def)

lemma truthy_pagination: "truthy (pagination_value p) = (p \<noteq> None)"
  by (cases p) (simp_all add: truthy_def pagination_value_def)

lemma truthy_sort: "truthy (sort_value s) = (s \<noteq> None \<and> s \<noteq> Some (SortString []))"
proof (cases s)
  case None
  then show ?thesis by (simp add: truthy_def sort_value_def)
next
  case (Some x)
  then show ?thesis by (cases x) (simp_all add: truthy_def sort_value_def)
qed

lemma filter_value_None: "(filter_value f = None) = (f = None)"
  by (simp add: filter_value_def)

lemma pagination_value_None: "(pagination_value p = None) = (p = None)"
  by (simp add: pagination_value_def)

lemma sort_value_None: "(sort_value s = None) = (s = None)"
  by (simp add: sort_value_def)

lemma collectionName_Inr:
  assumes "JSON_stringify (filter_value f) = Inr a"
    and "JSON_stringify (pagination_value p) = Inr b"
    and "JSON_stringify (sort_value s) = Inr c"
  shows "collectionName E f p s =
    Inr (E @ (if f = None \<and> p = None \<and> (s = None \<or> s = Some (SortString [])) then []
              else ''(''
                @ (case a of None \<Rightarrow> [] | Some t \<Rightarrow> ''filters: '' @ replace_quoted_keys t @ '', '')
                @ (case b of None \<Rightarrow> [] | Some t \<Rightarrow> ''pagination: '' @ replace_quoted_keys t @ '', '')
                @ (case c of None \<Rightarrow> []
                   | Some t \<Rightarrow> if s = Some (SortString []) then []
                              else ''sort: '' @ replace_quoted_keys t @ '', '')
                @ '')''))"
proof -
  have a: "(a = None) = (f = None)"
    using stringify_None [OF assms(1)] by (simp add: filter_value_None)
  have b: "(b = None) = (p = None)"
    using stringify_None [OF assms(2)] by (simp add: pagination_value_None)
  have c: "(c = None) = (s = None)"
    using stringify_None [OF assms(3)] by (simp add: sort_value_None)
  have "collectionName E f p s =
    Inr (E @ (if f \<noteq> None \<or> p \<noteq> None \<or> (s \<noteq> None \<and> s \<noteq> Some (SortString [])) then ''('' else [])
           @ (if f \<noteq> None then ''filters: '' @ interpolate (map_option replace_quoted_keys a) @ '', '' else [])
           @ (if p \<noteq> None then ''pagination: '' @ interpolate (map_option replace_quoted_keys b) @ '', '' else [])
           @ (if s \<noteq> None \<and> s \<noteq> Some (SortString [])
              then ''sort: '' @ interpolate (map_option replace_quoted_keys c) @ '', '' else [])
           @ (if f \<noteq> None \<or> p \<noteq> None \<or> (s \<noteq> None \<and> s \<noteq> Some (SortString [])) then '')'' else []))"
    by (simp add: collectionName_def assms truthy_filter truthy_pagination truthy_sort)
  then show ?thesis
    using a b c by (cases a; cases b; cases c) (auto simp add: interpolate_def)
qed

lemma stringify_clean:
  assumes "clean_arg x"
  shows "\<exists>r. JSON_stringify x = Inr r \<and> map_option replace_quoted_keys r = map_option literal x"
proof (cases x)
  case None
  then show ?thesis by (simp add: JSON_stringify_def)
next
  case (Some v)
  then have "clean v" using assms by (simp add: clean_arg_def)
  then obtain t where "SerializeJSONProperty v = Inr t" "replace_quoted_keys t = literal v"
    using replace_serialized by blast
  with Some show ?thesis by (simp add: JSON_stringify_def)
qed

lemma collection_of_name:
  "collection E F f s p pr =
     (case collectionName E f p s of
        Inl e \<Rightarrow> Inl e
      | Inr name \<Rightarrow>
          Inr (name @ '' { '' @ data F @ '' ''
               @ (case pr of
                    None \<Rightarrow> []
                  | Some flags \<Rightarrow>
                      ''meta { pagination { ''
                      @ join '' '' (filter (\<lambda>key. map_of flags key = Some True) (map fst flags))
                      @ '' } }'')
               @ '' }''))"
  by (cases pr; cases "collectionName E f p s") (simp_all add: collection_def interpolate_def)

lemma collection_rest:
  "collectionName E f p s = Inr name \<Longrightarrow> \<exists>rest. collection E F f s p pr = Inr (name @ '' { '' @ rest)"
  by (simp add: collection_of_name)

lemma case_map_option:
  "(case map_option g x of None \<Rightarrow> d | Some l \<Rightarrow> h l) = (case x of None \<Rightarrow> d | Some t \<Rightarrow> h (g t))"
  by (cases x) simp_all

lemma true_flags:
  "distinct (map fst flags) \<Longrightarrow>
   filter (\<lambda>key. map_of flags key = Some True) (map fst flags) = map fst (filter snd flags)"
proof (induction flags)
  case Nil
  show ?case by simp
next
  case (Cons kb flags)
  obtain k b where kb: "kb = (k, b)" by (cases kb)
  have fresh: "k \<notin> set (map fst flags)" and rest: "distinct (map fst flags)"
    using Cons.prems kb by simp_all
  have "filter (\<lambda>key. map_of (kb # flags) key = Some True) (map fst flags)
      = filter (\<lambda>key. map_of flags key = Some True) (map fst flags)"
    using fresh kb by (intro filter_cong) auto
  then show ?case using Cons.IH [OF rest] kb by simp
qed

subsection \<open>Joining and splitting\<close>

lemma split_on_plain: "c \<notin> set x \<Longrightarrow> split_on c x = [x]"
  by (induction x) auto

lemma split_on_first: "c \<notin> set x \<Longrightarrow> split_on c (x @ c # r) = x # split_on c r"
  by (induction x) auto

lemma split_on_join:
  assumes "F \<noteq> []" and "\<forall>f \<in> set F. c \<notin> set f"
  shows "split_on c (join [c] F) = F"
  using assms
proof (induction F)
  case Nil
  then show ?case by simp
next
  case step: (Cons x xs)
  show ?case
  proof (cases xs)
    case Nil
    with step.prems show ?thesis by (simp add: split_on_plain)
  next
    case (Cons y ys)
    then have "split_on c (join [c] xs) = xs"
      using step.IH step.prems by simp
    with Cons step.prems show ?thesis by (simp add: split_on_first)
  qed
qed

text \<open>
  The defining equations that evaluate the builders on a concrete input.
\<close>

lemmas number_simps =
  Integer_def strip_zeros.simps digits.simps decimal_def exponent_def Let_def replicate_numeral

lemmas eval_simps =
  collection_def collectionName_def JSON_stringify_def filter_value_def pagination_value_def
  sort_value_def truthy_def interpolate_def data_def QuoteJSONString_def escape_def
  escape_char_def entry_def entryName_def number_simps

section \<open>The claims\<close>

subsection \<open>C1: the id clause of \<^verbatim>\<open>entry\<close>\<close>

text \<open>
  C1, as stated, fails: the claim says that every supplied id gives the clause
  \<^verbatim>\<open>(id: <id>)\<close> right after the entity name. The id \<open>0\<close> is supplied here and the
  output has no clause: it does not start with \<^verbatim>\<open>shop(id: 0)\<close>.
\<close>

theorem entry_id_zero_counterexample:
  "entry ''shop'' [''name''] (Some (Integer 0)) = ''shop { data { id attributes { name } } }''
   \<and> take 11 (entry ''shop'' [''name''] (Some (Integer 0))) \<noteq> ''shop(id: 0)''"
  by (simp add: entry_def entryName_def truthy_def data_def number_simps)

text \<open>
  C1, amended. For every entity name \<open>E\<close>, field list \<open>F\<close> and supplied id \<open>n\<close> that tests
  true, which is every number but zero and \<open>NaN\<close> (a negative number, a fraction, a number
  that is not finite: no bounds are checked), \<open>entry\<close> puts \<^verbatim>\<open>(id: <n>)\<close> right after
  \<open>E\<close>, the number printed as \<^verbatim>\<open>Number::toString\<close> prints it; when no id is supplied
  nothing stands between \<open>E\<close> and the block that follows.
\<close>

theorem entry_id_clause:
  "(ToBoolean (VNumber n) \<longrightarrow>
      entry E F (Some n) = E @ ''(id: '' @ Number_toString n @ '')'' @ '' { '' @ data F @ '' }'')
   \<and> entry E F None = E @ '' { '' @ data F @ '' }''"
  by (simp add: entry_def entryName_def truthy_def interpolate_def)

text \<open>
  The amended C1 at the ids \<open>7\<close>, \<open>-12\<close>, \<open>1.5\<close>, \<open>1e21\<close>, \<open>2^69\<close>, \<open>1.5e-7\<close> and
  \<open>-Infinity\<close>, and with no id.
\<close>

theorem entry_id_clause_witness:
  "ToBoolean (VNumber (Integer 7))
   \<and> entry ''shop'' [''name''] (Some (Integer 7)) = ''shop(id: 7) { data { id attributes { name } } }''
   \<and> entry ''shop'' [''name''] (Some (Integer (- 12))) = ''shop(id: -12) { data { id attributes { name } } }''
   \<and> entry ''shop'' [''name''] (Some (Finite False 15 1))
       = ''shop(id: 1.5) { data { id attributes { name } } }''
   \<and> entry ''shop'' [''name''] (Some (Finite False 1 22))
       = ''shop(id: 1e+21) { data { id attributes { name } } }''
   \<and> entry ''shop'' [''name''] (Some (Finite False 5902958103587057 21))
       = ''shop(id: 590295810358705700000) { data { id attributes { name } } }''
   \<and> entry ''shop'' [''name''] (Some (Finite False 15 (- 6)))
       = ''shop(id: 1.5e-7) { data { id attributes { name } } }''
   \<and> entry ''shop'' [''name''] (Some NegInfinity)
       = ''shop(id: -Infinity) { data { id attributes { name } } }''
   \<and> entry ''shop'' [''name''] None = ''shop { data { id attributes { name } } }''"
  using entry_id_clause [of "Integer 7" "''shop''" "[''name'']"]
    entry_id_clause [of "Integer (- 12)" "''shop''" "[''name'']"]
    entry_id_clause [of "Finite False 15 1" "''shop''" "[''name'']"]
    entry_id_clause [of "Finite False 1 22" "''shop''" "[''name'']"]
    entry_id_clause [of "Finite False 5902958103587057 21" "''shop''" "[''name'']"]
    entry_id_clause [of "Finite False 15 (- 6)" "''shop''" "[''name'']"]
    entry_id_clause [of NegInfinity "''shop''" "[''name'']"]
  by (simp add: data_def number_simps)

subsection \<open>C2: keys without quotes, string values with quotes\<close>

text \<open>
  C2, as stated, fails twice. The filter \<^verbatim>\<open>{name: {eq: "shop"}}\<close> gives the clause
  \<^verbatim>\<open>filters: {name:{eq:"shop"}}\<close>, the compact text of \<^verbatim>\<open>JSON.stringify\<close>, and not the
  clause \<^verbatim>\<open>filters: {name: {eq: "shop"}}\<close> of the claim. And not every string value keeps
  its quotes: the value \<^verbatim>\<open>a":b\<close> is serialised as \<^verbatim>\<open>"a\":b"\<close>, whose first five code units
  match the pattern, so its opening quote is removed.
\<close>

theorem collection_key_quotes_counterexample:
  \<open>collection ''shops'' [''name''] (Some [(''name'', VObject [(''eq'', VString ''shop'')])]) None None None
     = Inr ''shops(filters: {name:{eq:"shop"}}, ) { data { id attributes { name } }  }''
   \<and> collection ''shops'' [''name''] (Some [(''name'', VObject [(''eq'', VString ''shop'')])]) None None None
     \<noteq> Inr ''shops(filters: {name: {eq: "shop"}}, ) { data { id attributes { name } }  }''
   \<and> collection ''shops'' [''name''] (Some [(''name'', VObject [(''eq'', VString ''a":b'')])]) None None None
     = Inr (''shops(filters: {name:{eq:a'' @ [backslash] @ '':b"}}, ) { data { id attributes { name } }  }'')\<close>
  by (simp add: eval_simps)

text \<open>
  C2, amended. For filter, pagination and sort arguments with no circular reference, in
  which no string value holds a double quote with a colon right after it or starts with a
  colon, and no key is empty, holds a double quote or starts with a colon, \<open>collection\<close>
  writes each argument that is supplied (a sort unless it is the empty string) as its
  \<open>literal\<close>: the compact JSON text, no white space after a colon or a comma, with every
  object key without its quotes and every string value with them. The output starts with
  the name part, which is followed by \<^verbatim>\<open>" { "\<close>.
\<close>

theorem collection_literals:
  assumes "clean_arg (filter_value f)" "clean_arg (pagination_value p)" "clean_arg (sort_value s)"
  shows "\<exists>name rest.
     collectionName E f p s = Inr name
     \<and> collection E F f s p pr = Inr (name @ '' { '' @ rest)
     \<and> name = E @ (if f = None \<and> p = None \<and> (s = None \<or> s = Some (SortString [])) then []
              else ''(''
                @ (case filter_value f of None \<Rightarrow> [] | Some v \<Rightarrow> ''filters: '' @ literal v @ '', '')
                @ (case pagination_value p of None \<Rightarrow> [] | Some v \<Rightarrow> ''pagination: '' @ literal v @ '', '')
                @ (case sort_value s of None \<Rightarrow> []
                   | Some v \<Rightarrow> if s = Some (SortString []) then [] else ''sort: '' @ literal v @ '', '')
                @ '')'')"
proof -
  obtain x where x: "JSON_stringify (filter_value f) = Inr x"
      "map_option replace_quoted_keys x = map_option literal (filter_value f)"
    using stringify_clean [OF assms(1)] by blast
  obtain y where y: "JSON_stringify (pagination_value p) = Inr y"
      "map_option replace_quoted_keys y = map_option literal (pagination_value p)"
    using stringify_clean [OF assms(2)] by blast
  obtain z where z: "JSON_stringify (sort_value s) = Inr z"
      "map_option replace_quoted_keys z = map_option literal (sort_value s)"
    using stringify_clean [OF assms(3)] by blast
  have fx: "(case x of None \<Rightarrow> [] | Some t \<Rightarrow> ''filters: '' @ replace_quoted_keys t @ '', '')
      = (case filter_value f of None \<Rightarrow> [] | Some v \<Rightarrow> ''filters: '' @ literal v @ '', '')"
    using x(2) case_map_option [of "[]" "\<lambda>l. ''filters: '' @ l @ '', ''" replace_quoted_keys x]
      case_map_option [of "[]" "\<lambda>l. ''filters: '' @ l @ '', ''" literal "filter_value f"]
    by simp
  have py: "(case y of None \<Rightarrow> [] | Some t \<Rightarrow> ''pagination: '' @ replace_quoted_keys t @ '', '')
      = (case pagination_value p of None \<Rightarrow> [] | Some v \<Rightarrow> ''pagination: '' @ literal v @ '', '')"
    using y(2) case_map_option [of "[]" "\<lambda>l. ''pagination: '' @ l @ '', ''" replace_quoted_keys y]
      case_map_option [of "[]" "\<lambda>l. ''pagination: '' @ l @ '', ''" literal "pagination_value p"]
    by simp
  have sz: "(case z of None \<Rightarrow> []
        | Some t \<Rightarrow> if s = Some (SortString []) then [] else ''sort: '' @ replace_quoted_keys t @ '', '')
      = (case sort_value s of None \<Rightarrow> []
        | Some v \<Rightarrow> if s = Some (SortString []) then [] else ''sort: '' @ literal v @ '', '')"
    using z(2)
      case_map_option [of "[]" "\<lambda>l. if s = Some (SortString []) then [] else ''sort: '' @ l @ '', ''"
        replace_quoted_keys z]
      case_map_option [of "[]" "\<lambda>l. if s = Some (SortString []) then [] else ''sort: '' @ l @ '', ''"
        literal "sort_value s"]
    by simp
  have name: "collectionName E f p s =
      Inr (E @ (if f = None \<and> p = None \<and> (s = None \<or> s = Some (SortString [])) then []
              else ''(''
                @ (case filter_value f of None \<Rightarrow> [] | Some v \<Rightarrow> ''filters: '' @ literal v @ '', '')
                @ (case pagination_value p of None \<Rightarrow> [] | Some v \<Rightarrow> ''pagination: '' @ literal v @ '', '')
                @ (case sort_value s of None \<Rightarrow> []
                   | Some v \<Rightarrow> if s = Some (SortString []) then [] else ''sort: '' @ literal v @ '', '')
                @ '')''))"
    using collectionName_Inr [OF x(1) y(1) z(1), of E] by (simp only: fx py sz)
  show ?thesis using name collection_rest [OF name] by blast
qed

text \<open>
  The amended C2 at the filter \<^verbatim>\<open>{name: {eq: "shop"}}\<close>, the pagination \<^verbatim>\<open>{page: 2}\<close> and
  the sort \<^verbatim>\<open>["name:asc", "id:desc"]\<close>, and at a filter whose string value holds double
  quotes: \<^verbatim>\<open>say "hi"\<close> is written \<^verbatim>\<open>"say \"hi\""\<close>.
\<close>

theorem collection_literals_witness:
  \<open>clean_arg (filter_value (Some [(''name'', VObject [(''eq'', VString ''shop'')])]))
   \<and> clean_arg (filter_value (Some [(''name'', VObject [(''eq'', VString ''say "hi"'')])]))
   \<and> clean_arg (pagination_value (Some [(''page'', Integer 2)]))
   \<and> clean_arg (sort_value (Some (SortArray [''name:asc'', ''id:desc''])))
   \<and> collectionName ''shops'' (Some [(''name'', VObject [(''eq'', VString ''shop'')])])
          (Some [(''page'', Integer 2)]) (Some (SortArray [''name:asc'', ''id:desc'']))
       = Inr ''shops(filters: {name:{eq:"shop"}}, pagination: {page:2}, sort: ["name:asc","id:desc"], )''
   \<and> (\<exists>rest.
        collection ''shops'' [''name''] (Some [(''name'', VObject [(''eq'', VString ''shop'')])])
          (Some (SortArray [''name:asc'', ''id:desc''])) (Some [(''page'', Integer 2)]) None
          = Inr (''shops(filters: {name:{eq:"shop"}}, pagination: {page:2}, sort: ["name:asc","id:desc"], )''
                 @ '' { '' @ rest))
   \<and> collectionName ''shops'' (Some [(''name'', VObject [(''eq'', VString ''say "hi"'')])]) None None
       = Inr (''shops(filters: {name:{eq:"say '' @ [backslash] @ ''"hi'' @ [backslash] @ ''""}}, )'')\<close>
proof -
  have f: "clean_arg (filter_value (Some [(''name'', VObject [(''eq'', VString ''shop'')])]))"
    by (simp add: clean_arg_def filter_value_def clean_key_def clean_string_def)
  have g: \<open>clean_arg (filter_value (Some [(''name'', VObject [(''eq'', VString ''say "hi"'')])]))\<close>
    by (simp add: clean_arg_def filter_value_def clean_key_def clean_string_def)
  have p: "clean_arg (pagination_value (Some [(''page'', Integer 2)]))"
    by (simp add: clean_arg_def pagination_value_def clean_key_def clean_string_def)
  have s: "clean_arg (sort_value (Some (SortArray [''name:asc'', ''id:desc''])))"
    by (simp add: clean_arg_def sort_value_def clean_string_def)
  have n: "clean_arg (pagination_value None)" "clean_arg (sort_value None)"
    by (simp_all add: clean_arg_def pagination_value_def sort_value_def)
  show ?thesis
    using f g p s collection_literals [OF f p s, of "''shops''" "[''name'']" None]
      collection_literals [OF g n, of "''shops''" "[''name'']" None]
    by (simp add: filter_value_def pagination_value_def sort_value_def QuoteJSONString_def
        escape_def escape_char_def number_simps)
qed

subsection \<open>C3: the parenthesised clause\<close>

text \<open>
  C3, as stated, fails: the claim says that every parameter that is present contributes
  \<^verbatim>\<open><key>: <value>, \<close>. A sort that is the empty string is present and contributes
  nothing; the output is not the one with the clause \<^verbatim>\<open>(sort: "", )\<close>.
\<close>

theorem collection_empty_sort_counterexample:
  \<open>collection ''shops'' [''name''] None (Some (SortString [])) None None
     = Inr ''shops { data { id attributes { name } }  }''
   \<and> collection ''shops'' [''name''] None (Some (SortString [])) None None
     \<noteq> Inr ''shops(sort: "", ) { data { id attributes { name } }  }''\<close>
  by (simp add: eval_simps)

text \<open>
  C3, amended. Where \<^verbatim>\<open>JSON.stringify\<close> returns for the three arguments (\<open>a\<close>, \<open>b\<close>
  and \<open>c\<close>, each \<open>None\<close> exactly when its argument is omitted), the output of
  \<open>collection\<close> starts with the name part and \<^verbatim>\<open>" { "\<close>, and the name part is the entity
  name followed by a parenthesised clause exactly when a filter or a pagination is
  supplied or a sort other than the empty string is. In the clause the filter, the
  pagination and such a sort, where supplied, contribute \<^verbatim>\<open>filters: <value>, \<close>,
  \<^verbatim>\<open>pagination: <value>, \<close> and \<^verbatim>\<open>sort: <value>, \<close> in this order, the value being the
  JSON text after the replacement; a sort that is the empty string contributes nothing.
  A call with none of filter, sort, pagination and paginationResponse gives no
  parenthesised clause and no meta block.
\<close>

theorem collection_parameter_clause:
  assumes "JSON_stringify (filter_value f) = Inr a"
    and "JSON_stringify (pagination_value p) = Inr b"
    and "JSON_stringify (sort_value s) = Inr c"
  shows "\<exists>name rest.
     collectionName E f p s = Inr name
     \<and> collection E F f s p pr = Inr (name @ '' { '' @ rest)
     \<and> name = E @ (if f = None \<and> p = None \<and> (s = None \<or> s = Some (SortString [])) then []
              else ''(''
                @ (case a of None \<Rightarrow> [] | Some t \<Rightarrow> ''filters: '' @ replace_quoted_keys t @ '', '')
                @ (case b of None \<Rightarrow> [] | Some t \<Rightarrow> ''pagination: '' @ replace_quoted_keys t @ '', '')
                @ (case c of None \<Rightarrow> []
                   | Some t \<Rightarrow> if s = Some (SortString []) then []
                              else ''sort: '' @ replace_quoted_keys t @ '', '')
                @ '')'')
     \<and> (a = None \<longleftrightarrow> f = None) \<and> (b = None \<longleftrightarrow> p = None) \<and> (c = None \<longleftrightarrow> s = None)
     \<and> collection E F None None None None = Inr (E @ '' { '' @ data F @ '' '' @ '' }'')"
proof -
  have a: "(a = None) = (f = None)"
    using stringify_None [OF assms(1)] by (simp add: filter_value_None)
  have b: "(b = None) = (p = None)"
    using stringify_None [OF assms(2)] by (simp add: pagination_value_None)
  have c: "(c = None) = (s = None)"
    using stringify_None [OF assms(3)] by (simp add: sort_value_None)
  have none: "collection E F None None None None = Inr (E @ '' { '' @ data F @ '' '' @ '' }'')"
    by (simp add: collection_def collectionName_def JSON_stringify_def filter_value_def
        pagination_value_def sort_value_def truthy_def)
  note name = collectionName_Inr [OF assms, of E]
  show ?thesis using name collection_rest [OF name] a b c none by blast
qed

text \<open>
  The amended C3 with a filter, a pagination and a sort, and with none of them.
\<close>

theorem collection_parameter_clause_witness:
  \<open>JSON_stringify (filter_value (Some [(''name'', VObject [(''eq'', VString ''shop'')])]))
     = Inr (Some ''{"name":{"eq":"shop"}}'')
   \<and> JSON_stringify (pagination_value (Some [(''page'', Integer 1), (''pageSize'', Integer 10)]))
     = Inr (Some ''{"page":1,"pageSize":10}'')
   \<and> JSON_stringify (sort_value (Some (SortString ''name:asc''))) = Inr (Some ''"name:asc"'')
   \<and> collectionName ''shops'' (Some [(''name'', VObject [(''eq'', VString ''shop'')])])
        (Some [(''page'', Integer 1), (''pageSize'', Integer 10)]) (Some (SortString ''name:asc''))
     = Inr ''shops(filters: {name:{eq:"shop"}}, pagination: {page:1,pageSize:10}, sort: "name:asc", )''
   \<and> collection ''shops'' [''name''] None None None None
     = Inr ''shops { data { id attributes { name } }  }''\<close>
proof -
  have a: \<open>JSON_stringify (filter_value (Some [(''name'', VObject [(''eq'', VString ''shop'')])]))
     = Inr (Some ''{"name":{"eq":"shop"}}'')\<close>
    by (simp add: eval_simps)
  have b: \<open>JSON_stringify (pagination_value (Some [(''page'', Integer 1), (''pageSize'', Integer 10)]))
     = Inr (Some ''{"page":1,"pageSize":10}'')\<close>
    by (simp add: eval_simps)
  have c: \<open>JSON_stringify (sort_value (Some (SortString ''name:asc''))) = Inr (Some ''"name:asc"'')\<close>
    by (simp add: eval_simps)
  show ?thesis
    using a b c collection_parameter_clause [OF a b c, of "''shops''" "[''name'']" None]
    by (simp add: data_def)
qed

subsection \<open>C4: the meta block\<close>

text \<open>
  C4. When \<open>paginationResponse\<close> is supplied (an object, its keys distinct), the output
  of \<open>collection\<close> has, after the data block and a space, the block
  \<^verbatim>\<open>meta { pagination { <names> } }\<close>, the names being those of the flags whose value is
  true, in the order of the object's keys, joined by a space; a flag that is false is left
  out. When it is omitted there is no meta block. (Where \<^verbatim>\<open>JSON.stringify\<close> throws there is
  no output.)
\<close>

theorem collection_meta_block:
  assumes "distinct (map fst flags)"
  shows "collection E F f s p (Some flags) =
           (case collectionName E f p s of
              Inl e \<Rightarrow> Inl e
            | Inr name \<Rightarrow>
                Inr (name @ '' { '' @ data F @ '' ''
                     @ ''meta { pagination { '' @ join '' '' (map fst (filter snd flags)) @ '' } }''
                     @ '' }''))
       \<and> collection E F f s p None =
           (case collectionName E f p s of
              Inl e \<Rightarrow> Inl e
            | Inr name \<Rightarrow> Inr (name @ '' { '' @ data F @ '' '' @ '' }''))"
  using true_flags [OF assms]
  by (cases "collectionName E f p s") (simp_all add: collection_of_name)

text \<open>
  C4 at the flags \<^verbatim>\<open>{total: true, pageCount: false}\<close>, at three flags of which the first
  is false, and with no flags.
\<close>

theorem collection_meta_block_witness:
  "distinct (map fst [(''total'', True), (''pageCount'', False)])
   \<and> collection ''shops'' [''name''] None None None (Some [(''total'', True), (''pageCount'', False)])
       = Inr ''shops { data { id attributes { name } } meta { pagination { total } } }''
   \<and> collection ''shops'' [''name''] None None None (Some [(''total'', False), (''pageCount'', True), (''page'', True)])
       = Inr ''shops { data { id attributes { name } } meta { pagination { pageCount page } } }''
   \<and> collection ''shops'' [''name''] None None None None
       = Inr ''shops { data { id attributes { name } }  }''"
proof -
  have d1: "distinct (map fst [(''total'', True), (''pageCount'', False)])" by simp
  have d2: "distinct (map fst [(''total'', False), (''pageCount'', True), (''page'', True)])" by simp
  have n: "collectionName ''shops'' None None None = Inr ''shops''"
    by (simp add: collectionName_def JSON_stringify_def filter_value_def pagination_value_def
        sort_value_def truthy_def)
  show ?thesis
    using collection_meta_block [OF d1, of "''shops''" "[''name'']" None None None]
      collection_meta_block [OF d2, of "''shops''" "[''name'']" None None None]
    by (simp add: n data_def)
qed

subsection \<open>C5: the data block of \<^verbatim>\<open>entry\<close>\<close>

text \<open>
  C5. For every entity name \<open>E\<close> and field list \<open>F\<close>, \<open>entry E F\<close> with no id is \<open>E\<close>,
  \<^verbatim>\<open>" { "\<close>, the data block \<^verbatim>\<open>data { id attributes { <F joined by a space> } }\<close> and
  \<^verbatim>\<open>" }"\<close>; with an id the clause \<^verbatim>\<open>(id: <id>)\<close> stands after \<open>E\<close> when the id tests true.
  The join keeps the order of the fields and their repetitions: from a list that is not
  empty, of fields without a space, splitting the joined text at the spaces gives the list
  back.
\<close>

theorem entry_data_block:
  "entry E F None = E @ '' { '' @ ''data { id attributes { '' @ join '' '' F @ '' } }'' @ '' }''
   \<and> entry E F (Some n) =
       E @ (if ToBoolean (VNumber n) then ''(id: '' @ Number_toString n @ '')'' else [])
       @ '' { '' @ ''data { id attributes { '' @ join '' '' F @ '' } }'' @ '' }''
   \<and> (F \<noteq> [] \<and> (\<forall>f \<in> set F. CHR '' '' \<notin> set f) \<longrightarrow> split_on (CHR '' '') (join '' '' F) = F)"
  using split_on_join [of F "CHR '' ''"]
  by (simp add: entry_def entryName_def truthy_def interpolate_def data_def)

text \<open>
  C5 at the fields \<^verbatim>\<open>["name", "city", "name"]\<close>, one of them repeated.
\<close>

theorem entry_data_block_witness:
  "[''name'', ''city'', ''name''] \<noteq> [] \<and> CHR '' '' \<notin> set ''name'' \<and> CHR '' '' \<notin> set ''city''
   \<and> entry ''shop'' [''name'', ''city'', ''name''] None
       = ''shop { data { id attributes { name city name } } }''
   \<and> split_on (CHR '' '') (join '' '' [''name'', ''city'', ''name'']) = [''name'', ''city'', ''name'']"
  using entry_data_block [of "''shop''" "[''name'', ''city'', ''name'']"]
  by simp

subsection \<open>C6: the shape of the output of \<^verbatim>\<open>collection\<close>\<close>

text \<open>
  C6, as stated, fails: with no meta block the production \<open>CollectionReq\<close> has one space
  between the data block and the closing brace. The template writes the space in front
  of the meta block whether or not there is one, so the output has two.
\<close>

theorem collection_two_spaces_counterexample:
  "collection ''shops'' [''name''] None None None None
     = Inr ''shops { data { id attributes { name } }  }''
   \<and> collection ''shops'' [''name''] None None None None
     \<noteq> Inr ''shops { data { id attributes { name } } }''"
  by (simp add: collection_def collectionName_def JSON_stringify_def filter_value_def
      pagination_value_def sort_value_def truthy_def data_def)

text \<open>
  C6, amended. Every string that \<open>collection\<close> returns has the shape
  \<^verbatim>\<open>Name ("(" ParamList ")")? " { " DataBlock " " MetaBlock? " }"\<close>: the space in front of the
  meta block is always there, so two spaces stand between the data block and the closing
  brace when there is no meta block. \<open>ParamList\<close> is not empty when it is there, and the
  meta block is there exactly when \<open>paginationResponse\<close> is supplied.
\<close>

theorem collection_shape:
  assumes "collection E F f s p pr = Inr out"
  shows "\<exists>a b c m.
     out = E @ (if a @ b @ c = [] then [] else ''('' @ a @ b @ c @ '')'')
           @ '' { '' @ ''data { id attributes { '' @ join '' '' F @ '' } }'' @ '' '' @ m @ '' }''
     \<and> (a = [] \<or> (\<exists>l. a = ''filters: '' @ l @ '', ''))
     \<and> (b = [] \<or> (\<exists>l. b = ''pagination: '' @ l @ '', ''))
     \<and> (c = [] \<or> (\<exists>l. c = ''sort: '' @ l @ '', ''))
     \<and> (m = [] \<or> (\<exists>fl. m = ''meta { pagination { '' @ fl @ '' } }''))
     \<and> (m = [] \<longleftrightarrow> pr = None)"
proof -
  obtain x where x: "JSON_stringify (filter_value f) = Inr x"
    using assms by (cases "JSON_stringify (filter_value f)") (simp_all add: collection_def collectionName_def)
  obtain y where y: "JSON_stringify (pagination_value p) = Inr y"
    using stringify_pagination [of p] by (cases "JSON_stringify (pagination_value p)") simp_all
  obtain z where z: "JSON_stringify (sort_value s) = Inr z"
    using stringify_sort [of s] by (cases "JSON_stringify (sort_value s)") simp_all
  define a where "a = (case x of None \<Rightarrow> [] | Some t \<Rightarrow> ''filters: '' @ replace_quoted_keys t @ '', '')"
  define b where "b = (case y of None \<Rightarrow> [] | Some t \<Rightarrow> ''pagination: '' @ replace_quoted_keys t @ '', '')"
  define c where "c = (case z of None \<Rightarrow> []
      | Some t \<Rightarrow> if s = Some (SortString []) then [] else ''sort: '' @ replace_quoted_keys t @ '', '')"
  define m where "m = (case pr of None \<Rightarrow> []
      | Some flags \<Rightarrow> ''meta { pagination { ''
          @ join '' '' (filter (\<lambda>key. map_of flags key = Some True) (map fst flags)) @ '' } }'')"
  have nx: "(x = None) = (f = None)"
    using stringify_None [OF x] by (simp add: filter_value_None)
  have ny: "(y = None) = (p = None)"
    using stringify_None [OF y] by (simp add: pagination_value_None)
  have nz: "(z = None) = (s = None)"
    using stringify_None [OF z] by (simp add: sort_value_None)
  have empty: "(a @ b @ c = []) = (f = None \<and> p = None \<and> (s = None \<or> s = Some (SortString [])))"
    using nx ny nz by (cases x; cases y; cases z) (auto simp add: a_def b_def c_def)
  have name: "collectionName E f p s = Inr (E @ (if a @ b @ c = [] then [] else ''('' @ a @ b @ c @ '')''))"
  proof -
    have "collectionName E f p s =
        Inr (E @ (if f = None \<and> p = None \<and> (s = None \<or> s = Some (SortString [])) then []
                  else ''('' @ a @ b @ c @ '')''))"
      unfolding a_def b_def c_def by (rule collectionName_Inr [OF x y z])
    then show ?thesis by (simp only: empty [symmetric])
  qed
  have "out = E @ (if a @ b @ c = [] then [] else ''('' @ a @ b @ c @ '')'')
           @ '' { '' @ ''data { id attributes { '' @ join '' '' F @ '' } }'' @ '' '' @ m @ '' }''"
    using assms unfolding collection_of_name name m_def by (simp add: data_def)
  moreover have "a = [] \<or> (\<exists>l. a = ''filters: '' @ l @ '', '')"
    by (cases x) (simp_all add: a_def)
  moreover have "b = [] \<or> (\<exists>l. b = ''pagination: '' @ l @ '', '')"
    by (cases y) (simp_all add: b_def)
  moreover have "c = [] \<or> (\<exists>l. c = ''sort: '' @ l @ '', '')"
    by (cases z) (simp_all add: c_def)
  moreover have "m = [] \<or> (\<exists>fl. m = ''meta { pagination { '' @ fl @ '' } }'')"
    by (cases pr) (simp_all add: m_def)
  moreover have "m = [] \<longleftrightarrow> pr = None"
    by (cases pr) (simp_all add: m_def)
  ultimately show ?thesis by blast
qed

text \<open>
  The amended C6 at a call with every argument supplied.
\<close>

theorem collection_shape_witness:
  \<open>collection ''shops'' [''name''] (Some [(''name'', VObject [(''eq'', VString ''shop'')])])
      (Some (SortString ''name:asc'')) (Some [(''page'', Integer 1), (''pageSize'', Integer 10)])
      (Some [(''total'', True)])
    = Inr ''shops(filters: {name:{eq:"shop"}}, pagination: {page:1,pageSize:10}, sort: "name:asc", ) { data { id attributes { name } } meta { pagination { total } } }''
   \<and> (\<exists>a b c m.
     ''shops(filters: {name:{eq:"shop"}}, pagination: {page:1,pageSize:10}, sort: "name:asc", ) { data { id attributes { name } } meta { pagination { total } } }''
       = ''shops'' @ (if a @ b @ c = [] then [] else ''('' @ a @ b @ c @ '')'')
           @ '' { '' @ ''data { id attributes { '' @ join '' '' [''name''] @ '' } }'' @ '' '' @ m @ '' }''
     \<and> (a = [] \<or> (\<exists>l. a = ''filters: '' @ l @ '', ''))
     \<and> (b = [] \<or> (\<exists>l. b = ''pagination: '' @ l @ '', ''))
     \<and> (c = [] \<or> (\<exists>l. c = ''sort: '' @ l @ '', ''))
     \<and> (m = [] \<or> (\<exists>fl. m = ''meta { pagination { '' @ fl @ '' } }''))
     \<and> (m = [] \<longleftrightarrow> Some [(''total'', True)] = (None :: PaginationResponse option)))\<close>
proof -
  have eq: \<open>collection ''shops'' [''name''] (Some [(''name'', VObject [(''eq'', VString ''shop'')])])
      (Some (SortString ''name:asc'')) (Some [(''page'', Integer 1), (''pageSize'', Integer 10)])
      (Some [(''total'', True)])
    = Inr ''shops(filters: {name:{eq:"shop"}}, pagination: {page:1,pageSize:10}, sort: "name:asc", ) { data { id attributes { name } } meta { pagination { total } } }''\<close>
    by (simp add: eval_simps)
  show ?thesis using collection_shape [OF eq] eq by blast
qed

subsection \<open>C7: \<^verbatim>\<open>query\<close>\<close>

text \<open>
  C7. For every string \<open>X\<close>, the empty one included, \<open>query X\<close> is \<open>X\<close> between
  \<^verbatim>\<open>"query { "\<close> and \<^verbatim>\<open>" }"\<close>: the content is not inspected.
\<close>

theorem query_wraps: "query X = ''query { '' @ X @ '' }'' \<and> query [] = ''query {  }''"
  by (simp add: query_def)

subsection \<open>C8: exceptions\<close>

text \<open>
  C8, as stated, fails: the claim says that no call throws. A filter that holds itself
  (\<^verbatim>\<open>f.and = [f]\<close>) makes \<^verbatim>\<open>JSON.stringify\<close>, and so \<open>collection\<close>, throw a
  \<^verbatim>\<open>TypeError\<close>.
\<close>

theorem collection_circular_counterexample:
  "collection ''shops'' [''name''] (Some [(''and'', VArray [VCircular])]) None None None
     = Inl TypeError"
  by (simp add: eval_simps)

text \<open>
  C8, amended. \<open>collection\<close> returns a string exactly when the filter, if supplied,
  holds no circular reference; nothing else is checked. \<open>query\<close> and \<open>entry\<close> have no
  operation that can throw and return a string for every input. Inputs that make no sense,
  such as a negative id or an empty entity name, are written as they are.
\<close>

theorem builders_return:
  "((\<exists>out. collection E F f s p pr = Inr out)
      \<longleftrightarrow> (case f of None \<Rightarrow> True | Some x \<Rightarrow> \<not> circular (VObject x)))
   \<and> entry [] F (Some (Integer (- 1))) = ''(id: -1) { '' @ data F @ '' }''
   \<and> collection [] F None None None None = Inr ('' { '' @ data F @ '' '' @ '' }'')"
proof -
  have "(\<exists>out. collection E F f s p pr = Inr out) = (\<not> isl (collection E F f s p pr))"
    by (cases "collection E F f s p pr") simp_all
  also have "\<dots> = (case f of None \<Rightarrow> True | Some x \<Rightarrow> \<not> circular (VObject x))"
    by (cases f) (simp_all add: isl_collection isl_collectionName)
  finally have "(\<exists>out. collection E F f s p pr = Inr out)
      \<longleftrightarrow> (case f of None \<Rightarrow> True | Some x \<Rightarrow> \<not> circular (VObject x))" .
  moreover have "entry [] F (Some (Integer (- 1))) = ''(id: -1) { '' @ data F @ '' }''"
    by (simp add: entry_def entryName_def truthy_def interpolate_def number_simps)
  moreover have "collection [] F None None None None = Inr ('' { '' @ data F @ '' '' @ '' }'')"
    by (simp add: collection_def collectionName_def JSON_stringify_def filter_value_def
        pagination_value_def sort_value_def truthy_def)
  ultimately show ?thesis by blast
qed

text \<open>
  The amended C8 at a call with an empty entity name, no fields, an empty filter key, a
  sort that is a colon, a negative page and no flags.
\<close>

theorem builders_return_witness:
  \<open>\<exists>out. collection [] [] (Some [('''', VObject [(''eq'', VString ''shop'')])])
       (Some (SortString '':'')) (Some [(''page'', Integer (- 3))]) (Some []) = Inr out\<close>
  using builders_return [of "[]" "[]" "Some [('''', VObject [(''eq'', VString ''shop'')])]"
      "Some (SortString '':'')" "Some [(''page'', Integer (- 3))]" "Some []"]
  by simp

subsection \<open>C9: the id \<open>0\<close>\<close>

text \<open>
  C9. With the id \<open>0\<close> supplied the output of \<open>entry\<close> is the output of the same call
  with no id: the clause is decided by whether the id tests true, and \<open>0\<close> does not.
\<close>

theorem entry_id_zero:
  "entry E F (Some (Integer 0)) = entry E F None
   \<and> entry E F (Some (Integer 0)) = E @ '' { '' @ data F @ '' }''"
  by (simp add: entry_def entryName_def truthy_def Integer_def strip_zeros.simps)

subsection \<open>C10: the empty sort\<close>

text \<open>
  C10. With the empty string as sort the output of \<open>collection\<close> is the output of the
  same call with no sort: neither the clause \<^verbatim>\<open>sort: \<close> nor the parentheses are written
  for it, since both tests are of whether the sort tests true.
\<close>

theorem collection_empty_sort:
  "collection E F f (Some (SortString [])) p pr = collection E F f None p pr
   \<and> collectionName E f p (Some (SortString [])) = collectionName E f p None"
proof -
  have "collectionName E f p (Some (SortString [])) = collectionName E f p None"
    by (cases "JSON_stringify (filter_value f)"; cases "JSON_stringify (pagination_value p)")
       (simp_all add: collectionName_def JSON_stringify_def sort_value_def truthy_def
          QuoteJSONString_def escape_def)
  then show ?thesis by (simp add: collection_def)
qed

end
